theory Spec2Isabelle
  imports Complex_Main "HOL-Library.Word"
begin

unbundle bit_operations_syntax

section \<open>The polyline decoder\<close>

subsection \<open>Strings and character codes\<close>

text \<open>
  A JavaScript string is a sequence of 16-bit code units; \<open>jsstring\<close> is the list of their
  codes. \<open>js\<close> turns an ASCII literal into such a list. \<open>charCodeAt\<close> is the
  built-in: the code of the unit at an index, or \<open>NaN\<close> (here \<open>None\<close>) when the index is
  outside the string.
\<close>

type_synonym jsstring = "nat list"

definition js :: "string \<Rightarrow> jsstring" where
  "js s = map of_char s"

definition charCodeAt :: "jsstring \<Rightarrow> nat \<Rightarrow> nat option" where
  "charCodeAt s i = (if i < length s then Some (s ! i) else None)"

subsection \<open>decodePolyline, as the source writes it\<close>

text \<open>
  The \<open>do ... while (byte >= 0x20)\<close> loop, which the source writes out twice (once for
  the latitude, once for the longitude). \<open>result\<close> is a 32-bit integer, because
  \<open>|=\<close>, \<open>&\<close> and \<open><<\<close> work on 32-bit integers, and \<open><<\<close> uses its right operand
  modulo 32. When \<open>charCodeAt\<close> gives \<open>NaN\<close>, \<open>byte\<close> is \<open>NaN\<close>:
  \<open>NaN & 0x1f\<close> is \<open>0\<close>, so \<open>result\<close> keeps its value, and \<open>NaN >= 0x20\<close> is false, so
  the loop ends. The last argument is ghost state: the indices handed to \<open>charCodeAt\<close>
  so far, in order. The loop returns the cursor, \<open>result\<close> and the ghost trace.
\<close>

function decodePolyline_inner ::
  "jsstring \<Rightarrow> nat \<Rightarrow> nat \<Rightarrow> 32 word \<Rightarrow> nat list \<Rightarrow> nat \<times> 32 word \<times> nat list" where
  "decodePolyline_inner encoded index shift result reads =
     (case charCodeAt encoded index of
        None \<Rightarrow> (index + 1, result, reads @ [index])
      | Some c \<Rightarrow>
          (let byte = int c - 63;
               result' = result OR push_bit (shift mod 32) (word_of_int byte AND 0x1f)
           in if byte \<ge> 0x20
              then decodePolyline_inner encoded (index + 1) (shift + 5) result' (reads @ [index])
              else (index + 1, result', reads @ [index])))"
  by pat_completeness auto
termination
  by (relation "measure (\<lambda>(encoded, index, shift, result, reads). length encoded - index)")
     (auto simp: charCodeAt_def split: if_splits)

declare decodePolyline_inner.simps [simp del]

text \<open>
  \<open>(result & 1) !== 0 ? ~(result >> 1) : result >> 1\<close>, on 32-bit integers with the
  sign-propagating \<open>>>\<close>, read as a signed number.
\<close>

definition toDelta :: "32 word \<Rightarrow> int" where
  "toDelta result =
     sint (if result AND 1 \<noteq> 0 then NOT (signed_drop_bit 1 result) else signed_drop_bit 1 result)"

lemma decodePolyline_inner_index:
  "index < fst (decodePolyline_inner encoded index shift result reads)"
proof (induction encoded index shift result reads rule: decodePolyline_inner.induct)
  case (1 encoded index shift result reads)
  show ?case
  proof (cases "charCodeAt encoded index")
    case None
    then show ?thesis by (simp add: decodePolyline_inner.simps [of encoded index])
  next
    case (Some c)
    show ?thesis
    proof (cases "int c - 63 \<ge> 0x20")
      case True
      from "1" [OF Some refl refl True]
      have "Suc index < fst (decodePolyline_inner encoded (index + 1) (shift + 5)
        (result OR push_bit (shift mod 32) (word_of_int (int c - 63) AND 0x1f)) (reads @ [index]))"
        by simp
      then show ?thesis using Some True
        by (simp add: decodePolyline_inner.simps [of encoded index] Let_def)
    next
      case False
      then show ?thesis using Some
        by (simp add: decodePolyline_inner.simps [of encoded index] Let_def)
    qed
  qed
qed

text \<open>
  The \<open>while (index < encoded.length)\<close> loop. \<open>lat\<close> and \<open>lng\<close> are JavaScript numbers
  that only ever hold sums of 32-bit integers; they are modelled as unbounded integers
  (exact below \<open>2^53\<close>). \<open>lat / 1e5\<close> is modelled as the exact quotient; the JavaScript
  number is the double nearest to it. \<open>points.push\<close> appends. The loop returns the
  points, the final cursor and the ghost trace.
\<close>

function decodePolyline_loop ::
  "jsstring \<Rightarrow> nat \<Rightarrow> int \<Rightarrow> int \<Rightarrow> (rat \<times> rat) list \<Rightarrow> nat list
     \<Rightarrow> (rat \<times> rat) list \<times> nat \<times> nat list" where
  "decodePolyline_loop encoded index lat lng points reads =
     (if index < length encoded then
        (let r1 = decodePolyline_inner encoded index 0 0 reads;
             dlat = toDelta (fst (snd r1));
             lat' = lat + dlat;
             r2 = decodePolyline_inner encoded (fst r1) 0 0 (snd (snd r1));
             dlng = toDelta (fst (snd r2));
             lng' = lng + dlng
         in decodePolyline_loop encoded (fst r2) lat' lng'
              (points @ [(of_int lat' / 100000, of_int lng' / 100000)]) (snd (snd r2)))
      else (points, index, reads))"
  by pat_completeness auto
termination
proof (relation "measure (\<lambda>(encoded, index, lat, lng, points, reads). length encoded - index)")
  show "wf (measure (\<lambda>(encoded, index, lat, lng, points, reads). length encoded - index))"
    by simp
next
  fix encoded :: jsstring and index :: nat and lat lng dlat dlng lat' lng' :: int
    and points :: "(rat \<times> rat) list" and reads :: "nat list"
    and r1 r2 :: "nat \<times> 32 word \<times> nat list"
  assume inside: "index < length encoded"
    and r1: "r1 = decodePolyline_inner encoded index 0 0 reads"
    and r2: "r2 = decodePolyline_inner encoded (fst r1) 0 0 (snd (snd r1))"
  have "index < fst r1" unfolding r1 by (rule decodePolyline_inner_index)
  also have "fst r1 < fst r2" unfolding r2 by (rule decodePolyline_inner_index)
  finally show "((encoded, fst r2, lat', lng',
        points @ [(of_int lat' / 100000, of_int lng' / 100000)], snd (snd r2)),
      (encoded, index, lat, lng, points, reads))
    \<in> measure (\<lambda>(encoded, index, lat, lng, points, reads). length encoded - index)"
    using inside by simp
qed

declare decodePolyline_loop.simps [simp del]

definition decodePolyline_run :: "jsstring \<Rightarrow> (rat \<times> rat) list \<times> nat \<times> nat list" where
  "decodePolyline_run encoded = decodePolyline_loop encoded 0 0 0 [] []"

definition decodePolyline :: "jsstring \<Rightarrow> (rat \<times> rat) list" where
  "decodePolyline encoded = fst (decodePolyline_run encoded)"

text \<open>
  The function body has no \<open>throw\<close>, and neither \<open>charCodeAt\<close> nor the arithmetic and
  bitwise operators throw: every call completes normally with the list of points.
\<close>

datatype decode_error = MalformedGeometry


subsection \<open>The decoder as a scan of the remaining characters\<close>

text \<open>
  The same two loops, on the characters from the cursor on instead of the string and an
  index. A read past the end finds no character, keeps \<open>result\<close> and stops.
  \<open>decodePolyline_scan\<close> below proves that \<open>decodePolyline\<close> computes \<open>scanPoints\<close>.
\<close>

fun scanDelta :: "nat list \<Rightarrow> nat \<Rightarrow> 32 word \<Rightarrow> nat list \<times> 32 word" where
  "scanDelta [] shift result = ([], result)"
| "scanDelta (c # cs) shift result =
     (let byte = int c - 63;
          result' = result OR push_bit (shift mod 32) (word_of_int byte AND 0x1f)
      in if byte \<ge> 0x20 then scanDelta cs (shift + 5) result' else (cs, result'))"

lemma scanDelta_length: "length (fst (scanDelta cs shift result)) \<le> length cs"
  by (induction cs arbitrary: shift result) (auto simp: Let_def le_SucI)

lemma scanDelta_length_Cons: "length (fst (scanDelta (c # cs) shift result)) < Suc (length cs)"
  using scanDelta_length [of cs] by (auto simp: Let_def less_Suc_eq_le)

function scanPoints :: "nat list \<Rightarrow> int \<Rightarrow> int \<Rightarrow> (rat \<times> rat) list" where
  "scanPoints [] lat lng = []"
| "scanPoints (c # cs) lat lng =
     (let r1 = scanDelta (c # cs) 0 0;
          lat' = lat + toDelta (snd r1);
          r2 = scanDelta (fst r1) 0 0;
          lng' = lng + toDelta (snd r2)
      in (of_int lat' / 100000, of_int lng' / 100000) # scanPoints (fst r2) lat' lng')"
  by pat_completeness auto
termination
proof (relation "measure (\<lambda>(cs, lat, lng). length cs)")
  show "wf (measure (\<lambda>(cs, lat, lng). length cs))" by simp
next
  fix c :: nat and cs :: "nat list" and lat lng lat' lng' :: int
    and r1 r2 :: "nat list \<times> 32 word"
  assume r1: "r1 = scanDelta (c # cs) 0 0" and r2: "r2 = scanDelta (fst r1) 0 0"
  have "length (fst r2) \<le> length (fst r1)" unfolding r2 by (rule scanDelta_length)
  also have "length (fst r1) < Suc (length cs)" unfolding r1 by (rule scanDelta_length_Cons)
  finally show "((fst r2, lat', lng'), (c # cs, lat, lng)) \<in> measure (\<lambda>(cs, lat, lng). length cs)"
    by simp
qed

declare scanPoints.simps(2) [simp del]

subsection \<open>The decoding algorithm in the words of the specification\<close>

text \<open>
  Section 4.1 of the specification, step by step. The cursor is the list of characters
  not yet read. Step 2: each character gives \<open>byte = charCode(c) - 63\<close>; accumulate
  \<open>(byte & 0x1F) << shift\<close> into a running unsigned \<open>result\<close> (a natural number, of no
  fixed width), add 5 to \<open>shift\<close>, and go on while \<open>byte >= 0x20\<close>. The error policy:
  a cursor that runs past the end in the middle of a value is a \<open>MalformedGeometry\<close> fault.
\<close>

fun spec_readDelta :: "nat list \<Rightarrow> nat \<Rightarrow> nat \<Rightarrow> decode_error + (nat \<times> nat list)" where
  "spec_readDelta [] shift result = Inl MalformedGeometry"
| "spec_readDelta (c # cs) shift result =
     (let byte = int c - 63;
          result' = result OR push_bit shift (nat (byte AND 0x1F))
      in if byte \<ge> 0x20 then spec_readDelta cs (shift + 5) result' else Inr (result', cs))"

text \<open>
  Step 3: if the least-significant bit of \<open>result\<close> is 1, the delta is \<open>~(result >> 1)\<close>,
  else \<open>result >> 1\<close>.
\<close>

definition spec_toSigned :: "nat \<Rightarrow> int" where
  "spec_toSigned result =
     (if bit result 0 then NOT (drop_bit 1 (int result)) else drop_bit 1 (int result))"

lemma spec_readDelta_length:
  "spec_readDelta cs shift result = Inr (v, rest) \<Longrightarrow> length rest < length cs"
  by (induction cs arbitrary: shift result) (auto simp: Let_def less_SucI split: if_splits)

text \<open>
  Steps 4 to 6: one delta for the latitude, one for the longitude, emit
  \<open>(lat / 1e5, lng / 1e5)\<close>, and repeat until the cursor reaches the end of the string.
\<close>

function spec_decodeFrom :: "nat list \<Rightarrow> int \<Rightarrow> int \<Rightarrow> decode_error + (rat \<times> rat) list" where
  "spec_decodeFrom [] lat lng = Inr []"
| "spec_decodeFrom (c # cs) lat lng =
     (case spec_readDelta (c # cs) 0 0 of
        Inl e \<Rightarrow> Inl e
      | Inr (v1, rest1) \<Rightarrow>
          (case spec_readDelta rest1 0 0 of
             Inl e \<Rightarrow> Inl e
           | Inr (v2, rest2) \<Rightarrow>
               (case spec_decodeFrom rest2 (lat + spec_toSigned v1) (lng + spec_toSigned v2) of
                  Inl e \<Rightarrow> Inl e
                | Inr points \<Rightarrow>
                    Inr ((of_int (lat + spec_toSigned v1) / 100000,
                          of_int (lng + spec_toSigned v2) / 100000) # points))))"
  by pat_completeness auto
termination
proof (relation "measure (\<lambda>(cs, lat, lng). length cs)")
  show "wf (measure (\<lambda>(cs, lat, lng). length cs))" by simp
next
  fix c :: nat and cs rest1 rest2 :: "nat list" and lat lng :: int and v1 v2 :: nat
    and x1 x2 :: "nat \<times> nat list"
  assume a: "spec_readDelta (c # cs) 0 0 = Inr x1" "(v1, rest1) = x1"
    and b: "spec_readDelta rest1 0 0 = Inr x2" "(v2, rest2) = x2"
  have "length rest2 < length rest1"
    using b spec_readDelta_length [of rest1 0 0 v2 rest2] by simp
  also have "length rest1 < length (c # cs)"
    using a spec_readDelta_length [of "c # cs" 0 0 v1 rest1] by simp
  finally show "((rest2, lat + spec_toSigned v1, lng + spec_toSigned v2), (c # cs, lat, lng))
      \<in> measure (\<lambda>(cs, lat, lng). length cs)"
    by simp
qed

declare spec_decodeFrom.simps(2) [simp del]

definition spec_decode :: "jsstring \<Rightarrow> decode_error + (rat \<times> rat) list" where
  "spec_decode encoded = spec_decodeFrom encoded 0 0"

text \<open>
  A well-formed encoded string: every character is one of the 64 the encoding uses (codes
  63 to 126), every value takes at most six characters (30 bits, which covers every delta
  between coordinates of the data model), the last value is complete, and the values come
  in pairs. \<open>k\<close> counts the characters of the current value read so far; \<open>pending\<close> says
  that a latitude delta is read and its longitude delta is not yet.
\<close>

fun wellFormed_scan :: "nat list \<Rightarrow> nat \<Rightarrow> bool \<Rightarrow> bool" where
  "wellFormed_scan [] k pending = (k = 0 \<and> \<not> pending)"
| "wellFormed_scan (c # cs) k pending =
     (63 \<le> c \<and> c \<le> 126 \<and> k < 6 \<and>
      (if 95 \<le> c then wellFormed_scan cs (k + 1) pending
       else wellFormed_scan cs 0 (\<not> pending)))"

definition wellFormed :: "jsstring \<Rightarrow> bool" where
  "wellFormed encoded = wellFormed_scan encoded 0 False"

subsection \<open>The matching encoder\<close>

text \<open>
  Modelled from the spec: the encoder is not in this repository (the backend produces
  \<open>route.polyline\<close>). The specification names it: the well-known polyline algorithm
  with precision factor 1e5, a delta encoding of signed integers in groups of five bits,
  low group first, \<open>0x20\<close> marking a continuation, each group offset by 63.
  A coordinate rounded to five decimal places is \<open>k / 1e5\<close> for an integer \<open>k\<close>; the
  encoder takes the integers.
\<close>

function encodeValue :: "nat \<Rightarrow> nat list" where
  "encodeValue v =
     (if v \<ge> 0x20 then ((0x20 OR (v AND 0x1f)) + 63) # encodeValue (drop_bit 5 v)
      else [v + 63])"
  by pat_completeness auto
termination
  by (relation "measure (\<lambda>v. v)") (auto simp: drop_bit_eq_div)

declare encodeValue.simps [simp del]

definition encodeSigned :: "int \<Rightarrow> nat list" where
  "encodeSigned d = encodeValue (nat (if d < 0 then NOT (push_bit 1 d) else push_bit 1 d))"

fun encodeFrom :: "int \<Rightarrow> int \<Rightarrow> (int \<times> int) list \<Rightarrow> nat list" where
  "encodeFrom plat plng [] = []"
| "encodeFrom plat plng ((lat, lng) # ps) =
     encodeSigned (lat - plat) @ encodeSigned (lng - plng) @ encodeFrom lat lng ps"

definition encodePolyline :: "(int \<times> int) list \<Rightarrow> jsstring" where
  "encodePolyline ps = encodeFrom 0 0 ps"

definition toCoordinate :: "int \<times> int \<Rightarrow> rat \<times> rat" where
  "toCoordinate p = (of_int (fst p) / 100000, of_int (snd p) / 100000)"

text \<open>The coordinates of the data model: latitude in [-90, 90], longitude in [-180, 180].\<close>

definition inRange :: "int \<times> int \<Rightarrow> bool" where
  "inRange p = (\<bar>fst p\<bar> \<le> 9000000 \<and> \<bar>snd p\<bar> \<le> 18000000)"

section \<open>The route map\<close>

subsection \<open>The data of a trip response\<close>

text \<open>
  The interfaces of the types module. A \<open>number\<close> that comes from the JSON response is a
  finite number (JSON has no \<open>NaN\<close> and no infinity), modelled as a rational; \<open>null\<close> is
  \<open>None\<close>. \<open>polyline\<close> is \<open>None\<close> when the response carries \<open>null\<close> or no polyline.
\<close>

record Waypoint =
  name :: string
  lat :: rat
  lng :: rat
  type :: string

record RouteLeg =
  fromLocation :: string
  toLocation :: string
  distanceMiles :: rat
  durationMinutes :: rat

record Route =
  polyline :: "jsstring option"
  totalDistanceMiles :: rat
  totalDurationMinutes :: rat
  legs :: "RouteLeg list"
  waypoints :: "Waypoint list"

record Stop =
  type :: string
  durationMinutes :: rat
  location :: string
  lat :: "rat option"
  lng :: "rat option"
  mileMarker :: "rat option"
  reason :: string

subsection \<open>Route coordinates and bounds\<close>

text \<open>\<open>if (!route.polyline) return []; return decodePolyline(route.polyline)\<close>: a string is falsy
  when it is empty.\<close>

definition routeCoordinates :: "Route \<Rightarrow> (rat \<times> rat) list" where
  "routeCoordinates route =
     (case polyline route of
        None \<Rightarrow> []
      | Some p \<Rightarrow> if p = [] then [] else decodePolyline p)"

record LatLngBounds =
  southWest :: "rat \<times> rat"
  northEast :: "rat \<times> rat"

text \<open>
  Modelled from the spec: \<open>L.latLngBounds\<close> belongs to the Leaflet library, which is not
  in this repository. The specification says what the region of a non-empty list of
  points is: the rectangle whose corners are the minimum and the maximum of each axis,
  taken independently. Leaflet starts from the first point and extends the rectangle by
  each further point; without a point the bounds are not valid (\<open>None\<close>).
\<close>

definition LatLngBounds_extend :: "(rat \<times> rat) \<Rightarrow> LatLngBounds \<Rightarrow> LatLngBounds" where
  "LatLngBounds_extend p b =
     \<lparr>southWest = (min (fst p) (fst (southWest b)), min (snd p) (snd (southWest b))),
      northEast = (max (fst p) (fst (northEast b)), max (snd p) (snd (northEast b)))\<rparr>"

fun latLngBounds :: "(rat \<times> rat) list \<Rightarrow> LatLngBounds option" where
  "latLngBounds [] = None"
| "latLngBounds (p # ps) = Some (fold LatLngBounds_extend ps \<lparr>southWest = p, northEast = p\<rparr>)"

text \<open>A point lies in a region.\<close>

definition inside :: "rat \<times> rat \<Rightarrow> LatLngBounds \<Rightarrow> bool" where
  "inside p b = (fst (southWest b) \<le> fst p \<and> fst p \<le> fst (northEast b) \<and>
                 snd (southWest b) \<le> snd p \<and> snd p \<le> snd (northEast b))"

text \<open>The \<open>bounds\<close> memo of \<open>RouteMap\<close>.\<close>

definition bounds :: "(rat \<times> rat) list \<Rightarrow> Waypoint list \<Rightarrow> LatLngBounds option" where
  "bounds routeCoords wps =
     (let allPoints = routeCoords @ map (\<lambda>w. (Waypoint.lat w, Waypoint.lng w)) wps
      in if length allPoints = 0 then latLngBounds [(25, -125), (49, -66)]
         else latLngBounds allPoints)"

definition RouteMap_bounds :: "Route \<Rightarrow> LatLngBounds option" where
  "RouteMap_bounds route = bounds (routeCoordinates route) (waypoints route)"

subsection \<open>The stops shown on the map\<close>

text \<open>
  The filter that \<open>RouteMap\<close> applies before it places the stop markers, which the
  specification calls \<open>classifyStopsForMap\<close>:
  \<open>stops.filter((stop) => stop.lat && stop.lng && !['PICKUP', 'DROPOFF'].includes(stop.type))\<close>.
  A value of type \<open>number | null\<close> is truthy when it is neither \<open>null\<close> nor zero.
\<close>

definition truthy_number :: "rat option \<Rightarrow> bool" where
  "truthy_number v = (case v of None \<Rightarrow> False | Some x \<Rightarrow> x \<noteq> 0)"

definition classifyStopsForMap :: "Stop list \<Rightarrow> Stop list" where
  "classifyStopsForMap stops =
     filter (\<lambda>stop. truthy_number (Stop.lat stop) \<and> truthy_number (Stop.lng stop)
                    \<and> Stop.type stop \<notin> set [''PICKUP'', ''DROPOFF'']) stops"

subsection \<open>Labels and colours of stop types\<close>

text \<open>
  \<open>labels[type]\<close> and \<open>colors[type]\<close> read a property of an object literal. An object
  literal has its own properties and inherits those of \<open>Object.prototype\<close>, whose values
  are functions (and, for \<open>__proto__\<close>, the prototype object): all truthy, none a string.
  A name that is neither gives \<open>undefined\<close>.
\<close>

datatype jsvalue = JSUndefined | JSString string | JSInherited string

definition objectPrototype :: "string list" where
  "objectPrototype =
     [''constructor'', ''hasOwnProperty'', ''isPrototypeOf'', ''propertyIsEnumerable'',
      ''toLocaleString'', ''toString'', ''valueOf'', ''__proto__'',
      ''__defineGetter__'', ''__defineSetter__'', ''__lookupGetter__'', ''__lookupSetter__'']"

definition getProperty :: "(string \<times> string) list \<Rightarrow> string \<Rightarrow> jsvalue" where
  "getProperty obj key =
     (case map_of obj key of
        Some v \<Rightarrow> JSString v
      | None \<Rightarrow> if key \<in> set objectPrototype then JSInherited key else JSUndefined)"

fun truthy :: "jsvalue \<Rightarrow> bool" where
  "truthy JSUndefined = False"
| "truthy (JSString s) = (s \<noteq> [])"
| "truthy (JSInherited k) = True"

text \<open>\<open>a || b\<close>\<close>

definition js_or :: "jsvalue \<Rightarrow> jsvalue \<Rightarrow> jsvalue" where
  "js_or a b = (if truthy a then a else b)"

definition getStopTypeColor :: "string \<Rightarrow> jsvalue" where
  "getStopTypeColor t =
     (let colors = [(''PICKUP'', ''#2196f3''), (''DROPOFF'', ''#4caf50''), (''FUEL'', ''#ff9800''),
                    (''REST_BREAK'', ''#9c27b0''), (''OFF_DUTY'', ''#607d8b'')]
      in js_or (getProperty colors t) (JSString ''#000000''))"

text \<open>
  \<open>createCustomIcon(color, label)\<close> builds a Leaflet icon from the two values; the icon is
  kept as that pair. The glyphs of the three labels and the generic glyph are outside
  ASCII; they are written by name.
\<close>

datatype icon = CustomIcon jsvalue jsvalue

definition genericGlyph :: string where
  "genericGlyph = ''bullet''"

definition stopIcon :: "string \<Rightarrow> icon" where
  "stopIcon t =
     (let labels = [(''FUEL'', ''fuel pump''), (''REST_BREAK'', ''hot beverage''), (''OFF_DUTY'', ''bed'')]
      in CustomIcon (getStopTypeColor t) (js_or (getProperty labels t) (JSString genericGlyph)))"

section \<open>The trip form\<close>

text \<open>
  A JavaScript number that need not be finite: \<open>parseFloat\<close> gives \<open>NaN\<close> for a text that
  does not start with a number, and can give an infinity. \<open>Math.max\<close> and \<open>Math.min\<close>
  give \<open>NaN\<close> when an argument is \<open>NaN\<close>. A number is falsy when it is \<open>NaN\<close> or zero.
\<close>

datatype jsnumber = NaN | NegInfinity | Finite rat | PosInfinity

fun Math_max :: "jsnumber \<Rightarrow> jsnumber \<Rightarrow> jsnumber" where
  "Math_max NaN y = NaN"
| "Math_max x NaN = NaN"
| "Math_max PosInfinity y = PosInfinity"
| "Math_max x PosInfinity = PosInfinity"
| "Math_max NegInfinity y = y"
| "Math_max x NegInfinity = x"
| "Math_max (Finite a) (Finite b) = Finite (max a b)"

fun Math_min :: "jsnumber \<Rightarrow> jsnumber \<Rightarrow> jsnumber" where
  "Math_min NaN y = NaN"
| "Math_min x NaN = NaN"
| "Math_min NegInfinity y = NegInfinity"
| "Math_min x NegInfinity = NegInfinity"
| "Math_min PosInfinity y = y"
| "Math_min x PosInfinity = x"
| "Math_min (Finite a) (Finite b) = Finite (min a b)"

definition falsy_jsnumber :: "jsnumber \<Rightarrow> bool" where
  "falsy_jsnumber x = (x = NaN \<or> x = Finite 0)"

record LocationInput =
  lat :: "rat option"
  lng :: "rat option"
  address :: "string option"

record TripFormData =
  currentLocation :: LocationInput
  pickupLocation :: LocationInput
  dropoffLocation :: LocationInput
  cycleUsedHours :: jsnumber

text \<open>
  \<open>handleCycleHoursChange\<close>: the first argument is the built-in \<open>parseFloat\<close>, the second
  the text of the field (\<open>e.target.value\<close>), the third the form state that the updater
  handed to \<open>setFormData\<close> receives.
\<close>

definition defaultFormData :: TripFormData where
  "defaultFormData =
     \<lparr>currentLocation = \<lparr>lat = None, lng = None, address = Some []\<rparr>,
      pickupLocation = \<lparr>lat = None, lng = None, address = Some []\<rparr>,
      dropoffLocation = \<lparr>lat = None, lng = None, address = Some []\<rparr>,
      cycleUsedHours = Finite 0\<rparr>"

definition handleCycleHoursChange ::
  "(string \<Rightarrow> jsnumber) \<Rightarrow> string \<Rightarrow> TripFormData \<Rightarrow> TripFormData" where
  "handleCycleHoursChange parseFloat text prev =
     (let v = (if falsy_jsnumber (parseFloat text) then Finite 0 else parseFloat text)
      in prev\<lparr>cycleUsedHours := Math_min (Finite 70) (Math_max (Finite 0) v)\<rparr>)"

section \<open>The response error interceptor of the API client\<close>

text \<open>
  The fields the interceptor reads. \<open>error\<close> and \<open>detail\<close> are the strings the backend
  sends; \<open>None\<close> is a field that is absent or \<open>null\<close>. \<open>data\<close> is \<open>None\<close> when the
  response has no body with fields, \<open>response\<close> is \<open>None\<close> when no response arrived
  (a network error). A string is truthy when it is not empty.
\<close>

record ResponseData =
  error :: "string option"
  detail :: "string option"

record AxiosResponse =
  status :: int
  data :: "ResponseData option"

record AxiosError =
  message :: string
  response :: "AxiosResponse option"

text \<open>
  What the promise is rejected with: a new \<open>Error\<close> with its message, its \<open>isApiError\<close>
  mark and its \<open>status\<close>, or the error the interceptor received.
\<close>

datatype rejection = ApiError string bool int | Original AxiosError

definition truthy_string :: "string option \<Rightarrow> bool" where
  "truthy_string v = (case v of None \<Rightarrow> False | Some s \<Rightarrow> s \<noteq> [])"

text \<open>\<open>error.response?.data?.f\<close> when it is truthy, together with the response it is read from.\<close>

definition truthyField ::
  "(ResponseData \<Rightarrow> string option) \<Rightarrow> AxiosError \<Rightarrow> (AxiosResponse \<times> string) option" where
  "truthyField f e =
     (case response e of
        None \<Rightarrow> None
      | Some r \<Rightarrow>
          (case data r of
             None \<Rightarrow> None
           | Some d \<Rightarrow> if truthy_string (f d) then map_option (Pair r) (f d) else None))"

definition responseErrorInterceptor :: "AxiosError \<Rightarrow> rejection" where
  "responseErrorInterceptor e =
     (case truthyField error e of
        Some (r, m) \<Rightarrow> ApiError m True (status r)
      | None \<Rightarrow>
          (case truthyField detail e of
             Some (r, m) \<Rightarrow> ApiError m True (status r)
           | None \<Rightarrow> Original e))"

section \<open>Example data\<close>

definition fuelAtEquator :: Stop where
  "fuelAtEquator =
     \<lparr>Stop.type = ''FUEL'', Stop.durationMinutes = 30, Stop.location = ''Quito'',
      Stop.lat = Some 0, Stop.lng = Some (-785 / 10), Stop.mileMarker = None,
      Stop.reason = ''Fuel stop''\<rparr>"

definition denver :: Waypoint where
  "denver =
     \<lparr>Waypoint.name = ''Denver'', Waypoint.lat = 40, Waypoint.lng = -105,
      Waypoint.type = ''current''\<rparr>"

definition unresolvedRoute :: Route where
  "unresolvedRoute =
     \<lparr>polyline = Some [], totalDistanceMiles = 0, totalDurationMinutes = 0, legs = [],
      waypoints = []\<rparr>"

definition routeWithoutPolyline :: Route where
  "routeWithoutPolyline =
     \<lparr>polyline = None, totalDistanceMiles = 0, totalDurationMinutes = 0, legs = [],
      waypoints = [denver]\<rparr>"

definition emptyErrorResponse :: AxiosError where
  "emptyErrorResponse =
     \<lparr>message = ''Request failed with status code 400'',
      response = Some \<lparr>status = 400, data = Some \<lparr>error = Some [], detail = None\<rparr>\<rparr>\<rparr>"

definition errorResponse :: AxiosError where
  "errorResponse =
     \<lparr>message = ''Request failed with status code 400'',
      response = Some \<lparr>status = 400,
        data = Some \<lparr>error = Some ''Invalid location'', detail = Some ''ignored''\<rparr>\<rparr>\<rparr>"

definition detailResponse :: AxiosError where
  "detailResponse =
     \<lparr>message = ''Request failed with status code 404'',
      response = Some \<lparr>status = 404, data = Some \<lparr>error = None, detail = Some ''Not found.''\<rparr>\<rparr>\<rparr>"

definition networkError :: AxiosError where
  "networkError = \<lparr>message = ''Network Error'', response = None\<rparr>"

section \<open>The decoder computes the scan\<close>

lemma decodePolyline_inner_scan:
  "decodePolyline_inner s i sh r rd = (i', r', rd') \<Longrightarrow>
     r' = snd (scanDelta (drop i s) sh r) \<and> rd' = rd @ [i..<i'] \<and>
     drop i' s = fst (scanDelta (drop i s) sh r) \<and> i < i' \<and> i' \<le> Suc (max i (length s))"
proof (induction s i sh r rd arbitrary: i' r' rd' rule: decodePolyline_inner.induct)
  case (1 encoded index shift result reads)
  note run = "1.prems"
  show ?case
  proof (cases "charCodeAt encoded index")
    case None
    then have "length encoded \<le> index" by (simp add: charCodeAt_def split: if_splits)
    then show ?thesis using None run
      by (auto simp: decodePolyline_inner.simps [of encoded index])
  next
    case (Some c)
    then have lt: "index < length encoded" and c: "c = encoded ! index"
      by (auto simp: charCodeAt_def split: if_splits)
    then have dr: "drop index encoded = c # drop (Suc index) encoded"
      by (simp add: Cons_nth_drop_Suc)
    show ?thesis
    proof (cases "int c - 63 \<ge> 0x20")
      case True
      have "decodePolyline_inner encoded (index + 1) (shift + 5)
          (result OR push_bit (shift mod 32) (word_of_int (int c - 63) AND 0x1f)) (reads @ [index])
        = (i', r', rd')"
        using run Some True by (simp add: decodePolyline_inner.simps [of encoded index] Let_def)
      from "1.IH" [OF Some refl refl True this] show ?thesis
        using True lt by (simp add: dr Let_def upt_conv_Cons)
    next
      case False
      then show ?thesis using Some lt run
        by (auto simp: decodePolyline_inner.simps [of encoded index] Let_def dr)
    qed
  qed
qed

lemma decodePolyline_loop_scan:
  "decodePolyline_loop s i la lo pts rd = (pts', i', rd') \<Longrightarrow>
     pts' = pts @ scanPoints (drop i s) la lo \<and> rd' = rd @ [i..<i'] \<and> i \<le> i' \<and>
     i' \<le> max i (length s + 2) \<and> (i \<le> length s \<longrightarrow> length s \<le> i')"
proof (induction s i la lo pts rd arbitrary: pts' i' rd' rule: decodePolyline_loop.induct)
  case (1 encoded index lat lng points reads)
  note run = "1.prems"
  show ?case
  proof (cases "index < length encoded")
    case False
    then show ?thesis using run
      by (auto simp: decodePolyline_loop.simps [of encoded index])
  next
    case True
    obtain i1 w1 rd1 where r1: "decodePolyline_inner encoded index 0 0 reads = (i1, w1, rd1)"
      by (cases "decodePolyline_inner encoded index 0 0 reads") auto
    obtain i2 w2 rd2 where r2: "decodePolyline_inner encoded i1 0 0 rd1 = (i2, w2, rd2)"
      by (cases "decodePolyline_inner encoded i1 0 0 rd1") auto
    note s1 = decodePolyline_inner_scan [OF r1] and s2 = decodePolyline_inner_scan [OF r2]
    define lat' where "lat' = lat + toDelta w1"
    define lng' where "lng' = lng + toDelta w2"
    have rec: "decodePolyline_loop encoded i2 lat' lng'
        (points @ [(of_int lat' / 100000, of_int lng' / 100000)]) rd2 = (pts', i', rd')"
      using run True r1 r2
      by (simp add: decodePolyline_loop.simps [of encoded index] Let_def lat'_def lng'_def)
    have IH: "pts' = (points @ [(of_int lat' / 100000, of_int lng' / 100000)])
          @ scanPoints (drop i2 encoded) lat' lng' \<and> rd' = rd2 @ [i2..<i'] \<and> i2 \<le> i' \<and>
        i' \<le> max i2 (length encoded + 2) \<and> (i2 \<le> length encoded \<longrightarrow> length encoded \<le> i')"
      using "1.IH" [OF True refl refl refl refl refl refl, of pts' i' rd'] rec
      by (simp add: r1 r2 lat'_def lng'_def)
    obtain c cs where dr: "drop index encoded = c # cs"
      using True by (cases "drop index encoded") auto
    have sp: "scanPoints (drop index encoded) lat lng
        = (of_int lat' / 100000, of_int lng' / 100000) # scanPoints (drop i2 encoded) lat' lng'"
    proof -
      have "scanPoints (c # cs) lat lng
        = (rat_of_int (lat + toDelta (snd (scanDelta (c # cs) 0 0))) / 100000,
           rat_of_int (lng + toDelta (snd (scanDelta (fst (scanDelta (c # cs) 0 0)) 0 0))) / 100000)
          # scanPoints (fst (scanDelta (fst (scanDelta (c # cs) 0 0)) 0 0))
              (lat + toDelta (snd (scanDelta (c # cs) 0 0)))
              (lng + toDelta (snd (scanDelta (fst (scanDelta (c # cs) 0 0)) 0 0)))"
        by (subst scanPoints.simps(2)) (simp only: Let_def)
      then show ?thesis
        using s1 s2 by (simp only: dr [symmetric] lat'_def lng'_def)
    qed
    have o1: "index \<le> i1" "i1 \<le> i2" "i2 \<le> i'" using s1 s2 IH by simp_all
    have b1: "i1 \<le> Suc (length encoded)" using s1 True by simp
    have b2: "i2 \<le> length encoded + 2" using s2 b1 by auto
    have "[index..<i'] = [index..<i1] @ [i1..<i']"
      using upt_add_eq_append [of index i1 "i' - i1"] o1 by simp
    also have "[i1..<i'] = [i1..<i2] @ [i2..<i']"
      using upt_add_eq_append [of i1 i2 "i' - i2"] o1 by simp
    finally have tr: "rd' = reads @ [index..<i']" using IH s1 s2 by simp
    have p: "pts' = points @ scanPoints (drop index encoded) lat lng"
      using IH sp by simp
    have hi: "i' \<le> max index (length encoded + 2)" using IH b2 by auto
    have lo: "length encoded \<le> i'" using IH o1 by (cases "i2 \<le> length encoded") auto
    show ?thesis using p tr hi lo o1 by simp
  qed
qed

lemma decodePolyline_scan: "decodePolyline s = scanPoints s 0 0"
  using decodePolyline_loop_scan [of s 0 0 0 "[]" "[]"]
  by (cases "decodePolyline_run s") (auto simp: decodePolyline_def decodePolyline_run_def)

section \<open>The decoder against the specification\<close>

lemma sint_word_of_nat_small: "v < 2 ^ 31 \<Longrightarrow> sint (word_of_nat v :: 32 word) = int v"
  by (simp add: signed_of_nat signed_take_bit_int_eq_self)

lemma odd_word_of_nat_32: "(word_of_nat v :: 32 word) AND 1 \<noteq> 0 \<longleftrightarrow> odd v"
proof -
  have "(word_of_nat v :: 32 word) AND 1 = word_of_nat (v AND 1)"
    by (simp only: of_nat_and_eq of_nat_1)
  also have "\<dots> = of_bool (odd v)"
    by (simp add: and_one_eq mod2_eq_if)
  finally show ?thesis by simp
qed

lemma toDelta_word_of_nat: "v < 2 ^ 31 \<Longrightarrow> toDelta (word_of_nat v) = spec_toSigned v"
proof -
  assume v: "v < 2 ^ 31"
  let ?w = "word_of_nat v :: 32 word"
  define d where "d = drop_bit 1 (int v)"
  have s: "sint (signed_drop_bit 1 ?w) = d"
    by (simp add: sint_signed_drop_bit_eq sint_word_of_nat_small [OF v] d_def)
  have r: "0 \<le> d" "d < 2 ^ 30"
    using v by (simp_all add: drop_bit_eq_div d_def)
  have "- (2 ^ 32) \<le> NOT d" "NOT d < 2 ^ 32"
    using r unfolding not_int_def by simp_all
  then have n: "sint (NOT (signed_drop_bit 1 ?w)) = NOT d"
    unfolding signed_not_eq s by (simp add: signed_take_bit_int_eq_self)
  show ?thesis
    using s n by (simp add: toDelta_def spec_toSigned_def odd_word_of_nat_32 bit_0 d_def)
qed

lemma group_bound: "nat (b AND 0x1F) < 32"
proof -
  have "b AND 0x1F \<le> 0x1F" by (rule AND_upper2) simp
  then show ?thesis by linarith
qed

lemma accumulate_bound: "n < 2 ^ s \<Longrightarrow> (n::nat) OR push_bit s (nat (b AND 0x1F)) < 2 ^ (s + 5)"
proof -
  assume n: "n < 2 ^ s"
  have "push_bit s (nat (b AND 0x1F)) < 2 ^ (s + 5)"
    using group_bound [of b] by (simp add: push_bit_eq_mult power_add)
  moreover have "n < 2 ^ (s + 5)"
    using n by (simp add: power_add less_le_trans)
  ultimately have "int n OR int (push_bit s (nat (b AND 0x1F))) < 2 ^ (s + 5)"
    by (intro OR_upper) simp_all
  then show ?thesis
    by (metis of_nat_or_eq of_nat_less_iff of_nat_numeral of_nat_power)
qed

lemma accumulate_word_of_nat: "s \<le> 25 \<Longrightarrow>
   (word_of_nat n :: 32 word) OR push_bit (s mod 32) (word_of_int b AND 0x1f)
     = word_of_nat (n OR push_bit s (nat (b AND 0x1F)))"
proof -
  assume s: "s \<le> 25"
  have "(word_of_int b :: 32 word) AND 0x1f = word_of_int (b AND 0x1F)"
    by (metis word_wi_log_defs(2) word_of_int_numeral)
  also have "\<dots> = word_of_nat (nat (b AND 0x1F))"
  proof -
    have "0 \<le> b AND 0x1F" by simp
    then show ?thesis by (simp only: of_nat_nat)
  qed
  finally have g: "(word_of_int b :: 32 word) AND 0x1f = word_of_nat (nat (b AND 0x1F))" .
  have "s mod 32 = s" using s by simp
  then show ?thesis
    unfolding g by (simp only: of_nat_or_eq of_nat_push_bit)
qed

lemma scanDelta_refines:
  "wellFormed_scan cs k p \<Longrightarrow> cs \<noteq> [] \<or> 0 < k \<or> p \<Longrightarrow> n < 2 ^ (5 * k) \<Longrightarrow>
   \<exists>rest v. spec_readDelta cs (5 * k) n = Inr (v, rest) \<and>
            scanDelta cs (5 * k) (word_of_nat n) = (rest, word_of_nat v) \<and>
            v < 2 ^ 30 \<and> wellFormed_scan rest 0 (\<not> p)"
proof (induction cs arbitrary: k n)
  case Nil
  then show ?case by simp
next
  case (Cons c cs)
  from Cons.prems(1) have c: "63 \<le> c" "c \<le> 126" and k: "k < 6" by simp_all
  define b where "b = int c - 63"
  define n' where "n' = n OR push_bit (5 * k) (nat (b AND 0x1F))"
  have n': "n' < 2 ^ (5 * (k + 1))"
    using accumulate_bound [OF Cons.prems(3), of b] by (simp add: n'_def add.commute)
  have w: "(word_of_nat n :: 32 word) OR push_bit (5 * k mod 32) (word_of_int b AND 0x1f) = word_of_nat n'"
    unfolding n'_def using k by (intro accumulate_word_of_nat) simp
  have cb: "(0x20 \<le> b) = (95 \<le> c)" unfolding b_def by linarith
  have sd: "scanDelta (c # cs) (5 * k) (word_of_nat n)
      = (if 0x20 \<le> b then scanDelta cs (5 * k + 5) (word_of_nat n') else (cs, word_of_nat n'))"
    by (simp only: scanDelta.simps Let_def b_def [symmetric] w)
  have sr: "spec_readDelta (c # cs) (5 * k) n
      = (if 0x20 \<le> b then spec_readDelta cs (5 * k + 5) n' else Inr (n', cs))"
    by (simp only: spec_readDelta.simps Let_def b_def [symmetric] n'_def [symmetric])
  have k5: "5 * k + 5 = 5 * (k + 1)" by simp
  show ?case
  proof (cases "95 \<le> c")
    case True
    then have wf: "wellFormed_scan cs (k + 1) p" using Cons.prems(1) by simp
    from Cons.IH [OF wf _ n'] obtain rest v where
      "spec_readDelta cs (5 * (k + 1)) n' = Inr (v, rest)"
      "scanDelta cs (5 * (k + 1)) (word_of_nat n') = (rest, word_of_nat v)"
      "v < 2 ^ 30" "wellFormed_scan rest 0 (\<not> p)"
      by auto
    then show ?thesis using True
      by (simp only: sd sr cb k5 if_True) blast
  next
    case False
    then have wf: "wellFormed_scan cs 0 (\<not> p)" using Cons.prems(1) by simp
    have "n' < 2 ^ (5 * (k + 1))" by (rule n')
    also have "\<dots> \<le> (2::nat) ^ 30" using k by (intro power_increasing) simp_all
    finally have "n' < 2 ^ 30" .
    then show ?thesis using False wf
      by (simp only: sd sr cb if_False) blast
  qed
qed

lemma scanPoints_refines:
  "wellFormed_scan cs 0 False \<Longrightarrow> spec_decodeFrom cs la lo = Inr (scanPoints cs la lo)"
proof (induction cs la lo rule: scanPoints.induct)
  case (1 lat lng)
  show ?case by simp
next
  case (2 c cs lat lng)
  from scanDelta_refines [OF "2.prems", of 0] obtain rest1 v1 where
    1: "spec_readDelta (c # cs) 0 0 = Inr (v1, rest1)"
       "scanDelta (c # cs) 0 0 = (rest1, word_of_nat v1)"
       "v1 < 2 ^ 30" "wellFormed_scan rest1 0 True"
    by auto
  from scanDelta_refines [OF 1(4), of 0] obtain rest2 v2 where
    2: "spec_readDelta rest1 0 0 = Inr (v2, rest2)"
       "scanDelta rest1 0 0 = (rest2, word_of_nat v2)"
       "v2 < 2 ^ 30" "wellFormed_scan rest2 0 False"
    by auto
  have d1: "toDelta (word_of_nat v1) = spec_toSigned v1" using 1(3) by (intro toDelta_word_of_nat) simp
  have d2: "toDelta (word_of_nat v2) = spec_toSigned v2" using 2(3) by (intro toDelta_word_of_nat) simp
  have IH: "spec_decodeFrom rest2 (lat + spec_toSigned v1) (lng + spec_toSigned v2)
      = Inr (scanPoints rest2 (lat + spec_toSigned v1) (lng + spec_toSigned v2))"
    using "2.IH" [OF refl refl refl refl] 1(2) 2(2) 2(4) by (simp add: d1 d2)
  show ?case
    by (subst spec_decodeFrom.simps(2), subst scanPoints.simps(2))
       (simp only: 1(1,2) 2(1,2) d1 d2 IH Let_def fst_conv snd_conv sum.case prod.case)
qed

text \<open>
  C1. On every well-formed encoded string \<open>decodePolyline\<close> returns what the algorithm of
  section 4.1 of the specification returns: groups of five bits from \<open>charCode - 63\<close>,
  continued while the byte is at least \<open>0x20\<close>; the unsigned value turned into a signed
  delta by \<open>~(result >> 1)\<close> when its lowest bit is 1 and \<open>result >> 1\<close> otherwise; the
  deltas added in turn to the latitude and the longitude; one point
  \<open>(lat / 1e5, lng / 1e5)\<close> per pair. The reference string decodes to
  (38.5, -120.2), (40.7, -120.95), (43.252, -126.453).
\<close>

theorem decodePolyline_implements_spec:
  "(wellFormed encoded \<longrightarrow> spec_decode encoded = Inr (decodePolyline encoded)) \<and>
   decodePolyline (js ''_p~iF~ps|U_ulLnnqC_mqNvxq`@'')
     = [(38.5, -120.2), (40.7, -120.95), (43.252, -126.453)]"
proof
  show "wellFormed encoded \<longrightarrow> spec_decode encoded = Inr (decodePolyline encoded)"
    by (simp add: wellFormed_def spec_decode_def decodePolyline_scan scanPoints_refines)
  show "decodePolyline (js ''_p~iF~ps|U_ulLnnqC_mqNvxq`@'')
     = [(38.5, -120.2), (40.7, -120.95), (43.252, -126.453)]"
    by code_simp
qed

theorem decodePolyline_implements_spec_witness:
  "wellFormed (js ''_p~iF~ps|U_ulLnnqC_mqNvxq`@'') \<and>
   spec_decode (js ''_p~iF~ps|U_ulLnnqC_mqNvxq`@'')
     = Inr [(38.5, -120.2), (40.7, -120.95), (43.252, -126.453)]"
proof -
  have w: "wellFormed (js ''_p~iF~ps|U_ulLnnqC_mqNvxq`@'')" by code_simp
  show ?thesis
    using w decodePolyline_implements_spec [of "js ''_p~iF~ps|U_ulLnnqC_mqNvxq`@''"] by simp
qed

section \<open>Strings cut in the middle of a delta\<close>






section \<open>The cursor\<close>

lemma count_list_upt: "i < n \<Longrightarrow> count_list [0..<n] i = 1"
  by (induction n) (auto simp: less_Suc_eq)

text \<open>
  C5. \<open>decodePolyline\<close> ends on every string, the empty one included (the two loops are
  total functions: their termination is proved where they are defined). The indices it
  reads are \<open>0, 1, 2, ...\<close> up to the final cursor, in this order: the cursor only moves
  forward, every character of the string is read exactly once, and the final cursor is at
  or past the end of the string (by at most two reads).
\<close>

theorem decodePolyline_cursor_forward:
  "\<exists>points index reads. decodePolyline_run encoded = (points, index, reads) \<and>
     reads = [0..<index] \<and> sorted_wrt (<) reads \<and>
     (\<forall>i<length encoded. count_list reads i = 1) \<and>
     length encoded \<le> index \<and> index \<le> length encoded + 2"
proof -
  obtain points index reads where run: "decodePolyline_run encoded = (points, index, reads)"
    by (cases "decodePolyline_run encoded") auto
  from decodePolyline_loop_scan [OF run [unfolded decodePolyline_run_def]]
  have r: "reads = [0..<index]" and b: "length encoded \<le> index" "index \<le> length encoded + 2"
    by simp_all
  have "sorted_wrt (<) reads" unfolding r by simp
  moreover have "\<forall>i<length encoded. count_list reads i = 1"
  proof (intro allI impI)
    fix i assume "i < length encoded"
    then have "i < index" using b(1) by simp
    then show "count_list reads i = 1" unfolding r by (rule count_list_upt)
  qed
  ultimately show ?thesis using run r b by blast
qed

theorem decodePolyline_cursor_forward_witness:
  "decodePolyline_run (js ''_p~iF~ps|U_ulLnnqC_mqNvxq`@'') =
     ([(38.5, -120.2), (40.7, -120.95), (43.252, -126.453)], 27, [0..<27]) \<and>
   decodePolyline_run [] = ([], 0, [])"
proof -
  have "decodePolyline_run (js ''_p~iF~ps|U_ulLnnqC_mqNvxq`@'') =
    ([(38.5, -120.2), (40.7, -120.95), (43.252, -126.453)], 27,
     [0, 1, 2, 3, 4, 5, 6, 7, 8, 9, 10, 11, 12, 13, 14, 15, 16, 17, 18, 19, 20, 21, 22, 23,
      24, 25, 26])"
    by code_simp
  moreover have "decodePolyline_run [] = ([], 0, [])" by code_simp
  ultimately show ?thesis
    using decodePolyline_cursor_forward [of "js ''_p~iF~ps|U_ulLnnqC_mqNvxq`@''"]
      decodePolyline_cursor_forward [of "[]"]
    by simp
qed

section \<open>Encoding and decoding\<close>

lemma split_low_group: "take_bit 5 v OR push_bit 5 (drop_bit 5 v) = v" for v :: nat
proof -
  have "take_bit 5 v AND push_bit 5 (drop_bit 5 v) = 0"
    by (rule bit_eqI) (auto simp: bit_simps)
  then have "take_bit 5 v OR push_bit 5 (drop_bit 5 v) = take_bit 5 v + push_bit 5 (drop_bit 5 v)"
    by (simp add: disjunctive_add_eq_or)
  also have "\<dots> = v" using bits_ident [of 5 v] by simp
  finally show ?thesis .
qed

lemma and_31: "v AND 0x1f = take_bit 5 v" for v :: nat
proof -
  have "(0x1f :: nat) = mask 5" by (simp add: mask_eq_exp_minus_1)
  then show ?thesis by (simp only: take_bit_eq_mask)
qed

lemma or_32: "x < 32 \<Longrightarrow> 0x20 OR x = 32 + x" for x :: nat
proof -
  assume x: "x < 32"
  have "push_bit n (1::nat) AND take_bit n x = 0" for n
    by (rule bit_eqI) (auto simp: bit_simps)
  from this [of 5] have "push_bit 5 (1::nat) AND take_bit 5 x = 0" .
  moreover have "take_bit 5 x = x" using x by (simp add: take_bit_nat_eq_self)
  moreover have "push_bit 5 (1::nat) = 32" by simp
  ultimately have "(32::nat) AND x = 0" by simp
  then show ?thesis by (simp add: disjunctive_add_eq_or)
qed

lemma int_and_31: "nat (int x AND 0x1F) = take_bit 5 x"
  by (metis and_31 of_nat_and_eq of_nat_eq_numeral_iff nat_int)

lemma continuation_byte:
  "0x20 \<le> int ((0x20 OR (v AND 0x1f)) + 63) - 63"
  "nat ((int ((0x20 OR (v AND 0x1f)) + 63) - 63) AND 0x1F) = take_bit 5 v"
  for v :: nat
proof -
  have e: "int ((0x20 OR (v AND 0x1f)) + 63) - 63 = int (0x20 OR (v AND 0x1f))" by simp
  have lt: "take_bit 5 v < 32" using take_bit_nat_less_exp [of 5 v] by simp
  have o: "(0x20 OR (v AND 0x1f)) = 32 + take_bit 5 v"
    unfolding and_31 using lt by (rule or_32)
  show "0x20 \<le> int ((0x20 OR (v AND 0x1f)) + 63) - 63"
    by (simp only: e o)
  have "nat (int (0x20 OR (v AND 0x1f)) AND 0x1F) = take_bit 5 (0x20 OR (v AND 0x1f))"
    by (rule int_and_31)
  also have "\<dots> = take_bit 5 (32 + take_bit 5 v)" by (simp only: o)
  also have "\<dots> = take_bit 5 v" by (simp add: take_bit_eq_mod)
  finally show "nat ((int ((0x20 OR (v AND 0x1f)) + 63) - 63) AND 0x1F) = take_bit 5 v"
    by (simp only: e)
qed

lemma terminator_byte:
  "v < 32 \<Longrightarrow> \<not> 0x20 \<le> int (v + 63) - 63"
  "v < 32 \<Longrightarrow> nat ((int (v + 63) - 63) AND 0x1F) = v"
proof -
  assume v: "v < 32"
  have e: "int (v + 63) - 63 = int v" by simp
  show "\<not> 0x20 \<le> int (v + 63) - 63" unfolding e using v by simp
  show "nat ((int (v + 63) - 63) AND 0x1F) = v"
    unfolding e int_and_31 using v by (simp add: take_bit_nat_eq_self)
qed

lemma scanDelta_encodeValue:
  "k < 6 \<Longrightarrow> v < 2 ^ (5 * (6 - k)) \<Longrightarrow>
   scanDelta (encodeValue v @ rest) (5 * k) (word_of_nat n)
     = (rest, word_of_nat (n OR push_bit (5 * k) v))"
proof (induction v arbitrary: k n rule: encodeValue.induct)
  case (1 v)
  show ?case
  proof (cases "0x20 \<le> v")
    case True
    define c where "c = (0x20 OR (v AND 0x1f)) + 63"
    define n' where "n' = n OR push_bit (5 * k) (take_bit 5 v)"
    have ev: "encodeValue v = c # encodeValue (drop_bit 5 v)"
      using True by (subst encodeValue.simps) (simp add: c_def)
    have k: "k < 5"
    proof (rule ccontr)
      assume "\<not> k < 5"
      then have "k = 5" using "1.prems"(1) by simp
      then show False using "1.prems"(2) True by simp
    qed
    have small: "drop_bit 5 v < 2 ^ (5 * (6 - (k + 1)))"
    proof -
      have "5 * (6 - k) = 5 * (6 - (k + 1)) + 5" using k by simp
      then have "v < 2 ^ (5 * (6 - (k + 1))) * 2 ^ 5"
        using "1.prems"(2) by (simp add: power_add)
      then show ?thesis by (simp add: drop_bit_eq_div less_mult_imp_div_less)
    qed
    have w: "(word_of_nat n :: 32 word) OR push_bit (5 * k mod 32) (word_of_int (int c - 63) AND 0x1f)
        = word_of_nat n'"
      using accumulate_word_of_nat [of "5 * k" n "int c - 63"] k continuation_byte(2) [of v]
      by (simp add: c_def n'_def)
    have "scanDelta (encodeValue v @ rest) (5 * k) (word_of_nat n)
        = scanDelta (encodeValue (drop_bit 5 v) @ rest) (5 * k + 5) (word_of_nat n')"
      unfolding ev using continuation_byte(1) [of v]
      by (simp only: append_Cons scanDelta.simps Let_def w c_def [symmetric] if_True)
    also have "\<dots> = (rest, word_of_nat (n' OR push_bit (5 * (k + 1)) (drop_bit 5 v)))"
      using "1.IH" [OF True _ small, of n'] k by (simp add: add.commute)
    also have "n' OR push_bit (5 * (k + 1)) (drop_bit 5 v) = n OR push_bit (5 * k) v"
    proof -
      have "push_bit (5 * k) v = push_bit (5 * k) (take_bit 5 v OR push_bit 5 (drop_bit 5 v))"
        by (simp only: split_low_group)
      also have "\<dots> = push_bit (5 * k) (take_bit 5 v) OR push_bit (5 * (k + 1)) (drop_bit 5 v)"
        by (simp add: push_bit_or add.commute)
      finally show ?thesis by (simp add: n'_def or.assoc)
    qed
    finally show ?thesis .
  next
    case False
    then have v: "v < 32" by simp
    have ev: "encodeValue v = [v + 63]"
      using False by (subst encodeValue.simps) simp
    have w: "(word_of_nat n :: 32 word) OR push_bit (5 * k mod 32) (word_of_int (int (v + 63) - 63) AND 0x1f)
        = word_of_nat (n OR push_bit (5 * k) v)"
      using accumulate_word_of_nat [of "5 * k" n "int (v + 63) - 63"] "1.prems"(1)
        terminator_byte(2) [OF v]
      by simp
    show ?thesis
      unfolding ev using terminator_byte(1) [OF v]
      by (simp only: append_Cons append_Nil scanDelta.simps Let_def w if_False)
  qed
qed

lemma encodeValue_not_Nil: "encodeValue v \<noteq> []"
  by (subst encodeValue.simps) simp

lemma spec_toSigned_zigzag:
  "spec_toSigned (nat (if d < 0 then NOT (push_bit 1 d) else push_bit 1 d)) = d"
proof (cases "d < 0")
  case True
  then have "nat (NOT (push_bit 1 d)) = nat (- 2 * d - 1)" by (simp add: not_int_def)
  moreover have "odd (nat (- 2 * d - 1))" using True by (simp add: even_nat_iff)
  moreover have "int (nat (- 2 * d - 1)) div 2 = - d - 1" using True by simp
  ultimately show ?thesis using True
    by (simp add: spec_toSigned_def bit_0 drop_bit_eq_div not_int_def)
next
  case False
  then show ?thesis
    by (simp add: spec_toSigned_def bit_0 drop_bit_eq_div even_nat_iff)
qed

lemma scanDelta_encodeSigned:
  assumes "\<bar>d\<bar> < 2 ^ 29"
  shows "\<exists>w. scanDelta (encodeSigned d @ rest) 0 0 = (rest, w) \<and> toDelta w = d"
proof -
  define v where "v = nat (if d < 0 then NOT (push_bit 1 d) else push_bit 1 d)"
  have v: "v < 2 ^ 30" using assms by (auto simp: v_def not_int_def)
  have "scanDelta (encodeValue v @ rest) (5 * 0) (word_of_nat 0) = (rest, word_of_nat (0 OR push_bit (5 * 0) v))"
    using v by (intro scanDelta_encodeValue) simp_all
  then have s: "scanDelta (encodeSigned d @ rest) 0 0 = (rest, word_of_nat v)"
    by (simp add: encodeSigned_def v_def)
  have "toDelta (word_of_nat v) = spec_toSigned v"
    using v by (intro toDelta_word_of_nat) simp
  also have "\<dots> = d" unfolding v_def by (rule spec_toSigned_zigzag)
  finally show ?thesis using s by blast
qed

lemma scanPoints_nonempty:
  "cs \<noteq> [] \<Longrightarrow> scanPoints cs la lo =
     (of_int (la + toDelta (snd (scanDelta cs 0 0))) / 100000,
      of_int (lo + toDelta (snd (scanDelta (fst (scanDelta cs 0 0)) 0 0))) / 100000)
     # scanPoints (fst (scanDelta (fst (scanDelta cs 0 0)) 0 0))
         (la + toDelta (snd (scanDelta cs 0 0)))
         (lo + toDelta (snd (scanDelta (fst (scanDelta cs 0 0)) 0 0)))"
proof -
  assume "cs \<noteq> []"
  then obtain c cs' where cs: "cs = c # cs'" by (cases cs) auto
  show ?thesis unfolding cs by (subst scanPoints.simps(2)) (simp only: Let_def)
qed

lemma scanPoints_encodeFrom:
  "inRange (pla, plo) \<Longrightarrow> \<forall>p \<in> set ps. inRange p \<Longrightarrow>
   scanPoints (encodeFrom pla plo ps) pla plo = map toCoordinate ps"
proof (induction ps arbitrary: pla plo)
  case Nil
  show ?case by simp
next
  case (Cons p ps)
  obtain la lo where p: "p = (la, lo)" by (cases p) auto
  have r: "inRange (la, lo)" using Cons.prems(2) p by simp
  define rest1 where "rest1 = encodeSigned (lo - plo) @ encodeFrom la lo ps"
  define rest2 where "rest2 = encodeFrom la lo ps"
  have d1: "\<bar>la - pla\<bar> < 2 ^ 29" and d2: "\<bar>lo - plo\<bar> < 2 ^ 29"
    using r Cons.prems(1) by (auto simp: inRange_def)
  from scanDelta_encodeSigned [OF d1, of rest1] obtain w1 where
    1: "scanDelta (encodeSigned (la - pla) @ rest1) 0 0 = (rest1, w1)" "toDelta w1 = la - pla"
    by blast
  from scanDelta_encodeSigned [OF d2, of rest2] obtain w2 where
    2: "scanDelta (encodeSigned (lo - plo) @ rest2) 0 0 = (rest2, w2)" "toDelta w2 = lo - plo"
    by blast
  have e: "encodeFrom pla plo (p # ps) = encodeSigned (la - pla) @ rest1"
    by (simp add: p rest1_def)
  have ne: "encodeSigned (la - pla) @ rest1 \<noteq> []"
    by (simp add: encodeSigned_def encodeValue_not_Nil)
  have B: "scanDelta rest1 0 0 = (rest2, w2)"
    using 2(1) by (simp only: rest1_def rest2_def)
  have "scanPoints (encodeSigned (la - pla) @ rest1) pla plo
      = (of_int (pla + toDelta w1) / 100000, of_int (plo + toDelta w2) / 100000)
        # scanPoints rest2 (pla + toDelta w1) (plo + toDelta w2)"
    by (subst scanPoints_nonempty [OF ne]) (simp only: 1(1) B fst_conv snd_conv)
  then have "scanPoints (encodeSigned (la - pla) @ rest1) pla plo
      = (of_int la / 100000, of_int lo / 100000) # scanPoints rest2 la lo"
    by (simp add: 1(2) 2(2))
  also have "scanPoints rest2 la lo = map toCoordinate ps"
    unfolding rest2_def using Cons.IH [OF r] Cons.prems(2) by simp
  finally have "scanPoints (encodeFrom pla plo (p # ps)) pla plo
      = (of_int la / 100000, of_int lo / 100000) # map toCoordinate ps"
    by (simp only: e)
  then show ?case by (simp add: p toCoordinate_def)
qed

text \<open>
  C7. For every sequence of coordinates of the data model, each rounded to five decimal
  places (the integers \<open>k\<close> of the coordinates \<open>k / 1e5\<close>), encoding with the matching
  encoder and decoding with \<open>decodePolyline\<close> gives the sequence back, element for
  element.
\<close>

theorem decodePolyline_encodePolyline:
  "\<forall>p \<in> set ps. inRange p \<Longrightarrow> decodePolyline (encodePolyline ps) = map toCoordinate ps"
  using scanPoints_encodeFrom [of 0 0 ps]
  by (simp add: decodePolyline_scan encodePolyline_def inRange_def)

theorem decodePolyline_encodePolyline_witness:
  "decodePolyline (encodePolyline [(3850000, -12020000), (4070000, -12095000), (4325200, -12645300)])
     = [(38.5, -120.2), (40.7, -120.95), (43.252, -126.453)]"
  using decodePolyline_encodePolyline
    [of "[(3850000, -12020000), (4070000, -12095000), (4325200, -12645300)]"]
  by (simp add: inRange_def toCoordinate_def)

text \<open>
  What the matching encoder makes of coordinates of the data model is a well-formed
  string: every value it writes takes at most six characters.
\<close>

lemma wellFormed_scan_encodeValue:
  "k < 6 \<Longrightarrow> v < 2 ^ (5 * (6 - k)) \<Longrightarrow>
   wellFormed_scan (encodeValue v @ rest) k p = wellFormed_scan rest 0 (\<not> p)"
proof (induction v arbitrary: k rule: encodeValue.induct)
  case (1 v)
  show ?case
  proof (cases "0x20 \<le> v")
    case True
    define c where "c = (0x20 OR (v AND 0x1f)) + 63"
    have ev: "encodeValue v = c # encodeValue (drop_bit 5 v)"
      using True by (subst encodeValue.simps) (simp add: c_def)
    have lt: "take_bit 5 v < 32" using take_bit_nat_less_exp [of 5 v] by simp
    have c: "c = 95 + take_bit 5 v"
      unfolding c_def and_31 using or_32 [OF lt] by simp
    have k: "k < 5"
    proof (rule ccontr)
      assume "\<not> k < 5"
      then have "k = 5" using "1.prems"(1) by simp
      then show False using "1.prems"(2) True by simp
    qed
    have small: "drop_bit 5 v < 2 ^ (5 * (6 - (k + 1)))"
    proof -
      have "5 * (6 - k) = 5 * (6 - (k + 1)) + 5" using k by simp
      then have "v < 2 ^ (5 * (6 - (k + 1))) * 2 ^ 5"
        using "1.prems"(2) by (simp add: power_add)
      then show ?thesis by (simp add: drop_bit_eq_div less_mult_imp_div_less)
    qed
    show ?thesis
      unfolding ev using "1.IH" [OF True _ small] k lt by (simp add: c)
  next
    case False
    then have ev: "encodeValue v = [v + 63]"
      by (subst encodeValue.simps) simp
    show ?thesis unfolding ev using False "1.prems"(1) by simp
  qed
qed

lemma wellFormed_scan_encodeFrom:
  "inRange (pla, plo) \<Longrightarrow> \<forall>p \<in> set ps. inRange p \<Longrightarrow>
   wellFormed_scan (encodeFrom pla plo ps) 0 False"
proof (induction ps arbitrary: pla plo)
  case Nil
  show ?case by simp
next
  case (Cons p ps)
  obtain la lo where p: "p = (la, lo)" by (cases p) auto
  have r: "inRange (la, lo)" using Cons.prems(2) p by simp
  have d1: "\<bar>la - pla\<bar> < 2 ^ 29" and d2: "\<bar>lo - plo\<bar> < 2 ^ 29"
    using r Cons.prems(1) by (auto simp: inRange_def)
  have z: "nat (if d < 0 then NOT (push_bit 1 d) else push_bit 1 d) < 2 ^ (5 * (6 - 0))"
    if "\<bar>d\<bar> < 2 ^ 29" for d :: int
    using that by (auto simp: not_int_def)
  show ?case
    using Cons.IH [OF r] Cons.prems(2) z [OF d1] z [OF d2]
    by (simp add: p encodeSigned_def wellFormed_scan_encodeValue)
qed

lemma encodePolyline_wellFormed:
  "\<forall>p \<in> set ps. inRange p \<Longrightarrow> wellFormed (encodePolyline ps)"
  using wellFormed_scan_encodeFrom [of 0 0 ps]
  by (simp add: wellFormed_def encodePolyline_def inRange_def)

section \<open>Route coordinates, bounds and stops\<close>

lemma LatLngBounds_extend_sel:
  "southWest (LatLngBounds_extend p b)
     = (min (fst p) (fst (southWest b)), min (snd p) (snd (southWest b)))"
  "northEast (LatLngBounds_extend p b)
     = (max (fst p) (fst (northEast b)), max (snd p) (snd (northEast b)))"
  by (simp_all add: LatLngBounds_extend_def)

lemma Min_insert_min:
  "Min (insert (min x y) (f ` set ps)) = Min (insert y (insert x (f ` set ps)))"
  for x y :: rat
  by (cases "ps = []") (simp_all add: min.assoc min.commute)

lemma Max_insert_max:
  "Max (insert (max x y) (f ` set ps)) = Max (insert y (insert x (f ` set ps)))"
  for x y :: rat
  by (cases "ps = []") (simp_all add: max.assoc max.commute)

lemma fold_LatLngBounds_extend:
  "fold LatLngBounds_extend ps b =
     \<lparr>southWest = (Min (insert (fst (southWest b)) (fst ` set ps)),
                   Min (insert (snd (southWest b)) (snd ` set ps))),
      northEast = (Max (insert (fst (northEast b)) (fst ` set ps)),
                   Max (insert (snd (northEast b)) (snd ` set ps)))\<rparr>"
proof (induction ps arbitrary: b)
  case Nil
  show ?case by simp
next
  case (Cons p ps)
  have "fold LatLngBounds_extend (p # ps) b = fold LatLngBounds_extend ps (LatLngBounds_extend p b)"
    by simp
  also have "\<dots> =
     \<lparr>southWest = (Min (insert (fst (southWest (LatLngBounds_extend p b))) (fst ` set ps)),
                   Min (insert (snd (southWest (LatLngBounds_extend p b))) (snd ` set ps))),
      northEast = (Max (insert (fst (northEast (LatLngBounds_extend p b))) (fst ` set ps)),
                   Max (insert (snd (northEast (LatLngBounds_extend p b))) (snd ` set ps)))\<rparr>"
    by (rule Cons.IH)
  also have "\<dots> =
     \<lparr>southWest = (Min (insert (fst (southWest b)) (fst ` set (p # ps))),
                   Min (insert (snd (southWest b)) (snd ` set (p # ps)))),
      northEast = (Max (insert (fst (northEast b)) (fst ` set (p # ps))),
                   Max (insert (snd (northEast b)) (snd ` set (p # ps))))\<rparr>"
    by (simp only: LatLngBounds_extend_sel fst_conv snd_conv Min_insert_min Max_insert_max
        list.set image_insert)
  finally show ?case .
qed

lemma latLngBounds_Cons:
  "latLngBounds (p # ps) =
     Some \<lparr>southWest = (Min (fst ` set (p # ps)), Min (snd ` set (p # ps))),
           northEast = (Max (fst ` set (p # ps)), Max (snd ` set (p # ps)))\<rparr>"
  by (simp add: fold_LatLngBounds_extend)

text \<open>
  C4. For a non-empty list of points (the decoded route coordinates followed by the
  waypoint coordinates) the region of \<open>bounds\<close> contains every point, on both axes, and it
  is the smallest such rectangle: its two corners lie in every region that contains all
  the points. For no point at all, the region is the fixed default, latitude 25 to 49 and
  longitude -125 to -66.
\<close>

theorem bounds_smallest_rectangle:
  "(rc @ map (\<lambda>w. (Waypoint.lat w, Waypoint.lng w)) wps = [] \<longrightarrow>
      bounds rc wps = Some \<lparr>southWest = (25, -125), northEast = (49, -66)\<rparr>) \<and>
   (rc @ map (\<lambda>w. (Waypoint.lat w, Waypoint.lng w)) wps \<noteq> [] \<longrightarrow>
      (\<exists>b. bounds rc wps = Some b \<and>
        (\<forall>p \<in> set (rc @ map (\<lambda>w. (Waypoint.lat w, Waypoint.lng w)) wps). inside p b) \<and>
        (\<forall>b'. (\<forall>p \<in> set (rc @ map (\<lambda>w. (Waypoint.lat w, Waypoint.lng w)) wps). inside p b') \<longrightarrow>
              inside (southWest b) b' \<and> inside (northEast b) b')))"
proof (intro conjI impI)
  assume "rc @ map (\<lambda>w. (Waypoint.lat w, Waypoint.lng w)) wps = []"
  then show "bounds rc wps = Some \<lparr>southWest = (25, -125), northEast = (49, -66)\<rparr>"
    by (simp add: bounds_def LatLngBounds_extend_def)
next
  define pts where "pts = rc @ map (\<lambda>w. (Waypoint.lat w, Waypoint.lng w)) wps"
  assume "rc @ map (\<lambda>w. (Waypoint.lat w, Waypoint.lng w)) wps \<noteq> []"
  then have ne: "pts \<noteq> []" by (simp add: pts_def)
  then obtain q qs where q: "pts = q # qs" by (cases pts) auto
  define b where "b = \<lparr>southWest = (Min (fst ` set pts), Min (snd ` set pts)),
           northEast = (Max (fst ` set pts), Max (snd ` set pts))\<rparr>"
  have bb: "bounds rc wps = Some b"
    using ne latLngBounds_Cons [of q qs] unfolding bounds_def Let_def pts_def [symmetric] b_def q
    by simp
  have nemp: "fst ` set pts \<noteq> {}" "snd ` set pts \<noteq> {}" using ne by simp_all
  have all: "\<forall>p \<in> set pts. inside p b"
    by (auto simp: inside_def b_def)
  have least: "\<forall>b'. (\<forall>p \<in> set pts. inside p b') \<longrightarrow> inside (southWest b) b' \<and> inside (northEast b) b'"
  proof (intro allI impI)
    fix b' assume h: "\<forall>p \<in> set pts. inside p b'"
    have 1: "\<And>x. x \<in> fst ` set pts \<Longrightarrow> fst (southWest b') \<le> x \<and> x \<le> fst (northEast b')"
      using h by (auto simp: inside_def)
    have 2: "\<And>x. x \<in> snd ` set pts \<Longrightarrow> snd (southWest b') \<le> x \<and> x \<le> snd (northEast b')"
      using h by (auto simp: inside_def)
    have "Min (fst ` set pts) \<in> fst ` set pts" "Max (fst ` set pts) \<in> fst ` set pts"
      "Min (snd ` set pts) \<in> snd ` set pts" "Max (snd ` set pts) \<in> snd ` set pts"
      using nemp by simp_all
    then show "inside (southWest b) b' \<and> inside (northEast b) b'"
      using 1 2 by (simp add: inside_def b_def)
  qed
  show "\<exists>b. bounds rc wps = Some b \<and>
        (\<forall>p \<in> set (rc @ map (\<lambda>w. (Waypoint.lat w, Waypoint.lng w)) wps). inside p b) \<and>
        (\<forall>b'. (\<forall>p \<in> set (rc @ map (\<lambda>w. (Waypoint.lat w, Waypoint.lng w)) wps). inside p b') \<longrightarrow>
              inside (southWest b) b' \<and> inside (northEast b) b')"
    using bb all least unfolding pts_def by blast
qed

text \<open>
  A single waypoint at (40, -105) and no route point gives the degenerate region with both
  corners at that point; no point gives the default.
\<close>

theorem bounds_smallest_rectangle_witness:
  "bounds [] [denver] = Some \<lparr>southWest = (40, -105), northEast = (40, -105)\<rparr> \<and>
   bounds [] [] = Some \<lparr>southWest = (25, -125), northEast = (49, -66)\<rparr>"
  using bounds_smallest_rectangle [of "[]" "[denver]"] bounds_smallest_rectangle [of "[]" "[]"]
  by (simp add: bounds_def denver_def)

text \<open>
  C6, as the claim states it, fails in its last part: a route without a polyline and with
  one waypoint at (40, -105) has no route coordinate, and its bounds do not fall back to
  the default region. \<open>allPoints\<close> holds the waypoint, so \<open>bounds\<close> takes the branch
  \<open>L.latLngBounds(allPoints)\<close>, which gives the region of that one point.
\<close>

theorem falsy_polyline_bounds_of_waypoints:
  "polyline routeWithoutPolyline = None \<and>
   routeCoordinates routeWithoutPolyline = [] \<and>
   RouteMap_bounds routeWithoutPolyline = latLngBounds [(40, -105)] \<and>
   RouteMap_bounds routeWithoutPolyline = Some \<lparr>southWest = (40, -105), northEast = (40, -105)\<rparr> \<and>
   RouteMap_bounds routeWithoutPolyline \<noteq> Some \<lparr>southWest = (25, -125), northEast = (49, -66)\<rparr>"
  by (simp add: routeWithoutPolyline_def denver_def routeCoordinates_def RouteMap_bounds_def
      bounds_def)

text \<open>
  C6, amended. \<open>decodePolyline\<close> of the empty string is the empty list. A falsy
  \<open>route.polyline\<close> (absent, or the empty string) gives an empty list of route
  coordinates, without an error; the bounds are then those of the waypoints alone, and
  they are the default region when the route has no waypoint either.
\<close>

theorem empty_polyline_no_coordinates:
  "decodePolyline [] = [] \<and>
   (polyline route = None \<or> polyline route = Some [] \<longrightarrow>
      routeCoordinates route = [] \<and>
      RouteMap_bounds route =
        (if waypoints route = [] then Some \<lparr>southWest = (25, -125), northEast = (49, -66)\<rparr>
         else latLngBounds (map (\<lambda>w. (Waypoint.lat w, Waypoint.lng w)) (waypoints route))))"
  by (auto simp: decodePolyline_def decodePolyline_run_def decodePolyline_loop.simps
      routeCoordinates_def RouteMap_bounds_def bounds_def LatLngBounds_extend_def)

theorem empty_polyline_no_coordinates_witness:
  "polyline unresolvedRoute = Some [] \<and> routeCoordinates unresolvedRoute = [] \<and>
   RouteMap_bounds unresolvedRoute = Some \<lparr>southWest = (25, -125), northEast = (49, -66)\<rparr>"
  using empty_polyline_no_coordinates [of unresolvedRoute] by (simp add: unresolvedRoute_def)

text \<open>
  What the stop filter keeps: the stops whose latitude and longitude are truthy, that is
  neither \<open>null\<close> nor zero, and whose type is neither PICKUP nor DROPOFF, in their order.
\<close>

lemma classifyStopsForMap_keeps:
  "s \<in> set (classifyStopsForMap stops) \<longleftrightarrow>
     s \<in> set stops \<and> Stop.lat s \<noteq> None \<and> Stop.lat s \<noteq> Some 0 \<and>
     Stop.lng s \<noteq> None \<and> Stop.lng s \<noteq> Some 0 \<and>
     Stop.type s \<noteq> ''PICKUP'' \<and> Stop.type s \<noteq> ''DROPOFF''"
  by (auto simp: classifyStopsForMap_def truthy_number_def split: option.splits)

text \<open>
  C3. A fuel stop on the equator has a latitude and a longitude that are not \<open>null\<close> and a
  type that is neither PICKUP nor DROPOFF, and the filter drops it: its latitude \<open>0\<close> is
  falsy.
\<close>

theorem classifyStopsForMap_drops_zero_latitude:
  "Stop.lat fuelAtEquator \<noteq> None \<and> Stop.lng fuelAtEquator \<noteq> None \<and>
   Stop.type fuelAtEquator \<notin> {''PICKUP'', ''DROPOFF''} \<and>
   classifyStopsForMap [fuelAtEquator] = []"
  by (simp add: classifyStopsForMap_def fuelAtEquator_def truthy_number_def)

section \<open>Labels and colours\<close>

text \<open>
  A type that is none of the five stop types and not the name of a property of
  \<open>Object.prototype\<close> gets the default colour and the generic glyph.
\<close>

lemma stopIcon_unknown_type:
  "t \<notin> {''PICKUP'', ''DROPOFF'', ''FUEL'', ''REST_BREAK'', ''OFF_DUTY''} \<Longrightarrow>
   t \<notin> set objectPrototype \<Longrightarrow>
   stopIcon t = CustomIcon (JSString ''#000000'') (JSString genericGlyph)"
  by (simp add: stopIcon_def getStopTypeColor_def getProperty_def js_or_def)

text \<open>
  C8. The type \<open>constructor\<close> is outside the recognised set, and neither lookup falls
  back: \<open>colors[type]\<close> and \<open>labels[type]\<close> are the inherited \<open>constructor\<close> property,
  which is truthy. No error is raised.
\<close>

theorem stopIcon_inherited_property:
  "''constructor'' \<notin> {''PICKUP'', ''DROPOFF'', ''FUEL'', ''REST_BREAK'', ''OFF_DUTY''} \<and>
   getStopTypeColor ''constructor'' = JSInherited ''constructor'' \<and>
   stopIcon ''constructor'' = CustomIcon (JSInherited ''constructor'') (JSInherited ''constructor'')"
  by (simp add: stopIcon_def getStopTypeColor_def getProperty_def js_or_def objectPrototype_def)

section \<open>The hours field\<close>

text \<open>
  C9. Whatever the text of the field and whatever \<open>parseFloat\<close> makes of it, the handler
  leaves \<open>cycleUsedHours\<close> a finite number between 0 and 70, and a text that \<open>parseFloat\<close>
  does not read as a number (\<open>NaN\<close>) gives 0. The value it stores is the parsed value
  clamped with minimum 0 and maximum 70: a finite \<open>x\<close> gives \<open>min 70 (max 0 x)\<close>, plus
  infinity gives 70 and minus infinity gives 0. The handler changes no other field of the
  form.
\<close>

theorem handleCycleHoursChange_range:
  "(\<exists>x. cycleUsedHours (handleCycleHoursChange parseFloat text prev) = Finite x \<and> 0 \<le> x \<and> x \<le> 70) \<and>
   (parseFloat text = NaN \<longrightarrow>
      cycleUsedHours (handleCycleHoursChange parseFloat text prev) = Finite 0) \<and>
   (\<forall>x. parseFloat text = Finite x \<longrightarrow>
      cycleUsedHours (handleCycleHoursChange parseFloat text prev) = Finite (min 70 (max 0 x))) \<and>
   (parseFloat text = PosInfinity \<longrightarrow>
      cycleUsedHours (handleCycleHoursChange parseFloat text prev) = Finite 70) \<and>
   (parseFloat text = NegInfinity \<longrightarrow>
      cycleUsedHours (handleCycleHoursChange parseFloat text prev) = Finite 0) \<and>
   currentLocation (handleCycleHoursChange parseFloat text prev) = currentLocation prev \<and>
   pickupLocation (handleCycleHoursChange parseFloat text prev) = pickupLocation prev \<and>
   dropoffLocation (handleCycleHoursChange parseFloat text prev) = dropoffLocation prev"
proof -
  have fields:
    "currentLocation (handleCycleHoursChange parseFloat text prev) = currentLocation prev"
    "pickupLocation (handleCycleHoursChange parseFloat text prev) = pickupLocation prev"
    "dropoffLocation (handleCycleHoursChange parseFloat text prev) = dropoffLocation prev"
    by (simp_all add: handleCycleHoursChange_def Let_def)
  have hours:
    "(\<exists>x. cycleUsedHours (handleCycleHoursChange parseFloat text prev) = Finite x \<and> 0 \<le> x \<and> x \<le> 70) \<and>
     (parseFloat text = NaN \<longrightarrow>
        cycleUsedHours (handleCycleHoursChange parseFloat text prev) = Finite 0) \<and>
     (\<forall>x. parseFloat text = Finite x \<longrightarrow>
        cycleUsedHours (handleCycleHoursChange parseFloat text prev) = Finite (min 70 (max 0 x))) \<and>
     (parseFloat text = PosInfinity \<longrightarrow>
        cycleUsedHours (handleCycleHoursChange parseFloat text prev) = Finite 70) \<and>
     (parseFloat text = NegInfinity \<longrightarrow>
        cycleUsedHours (handleCycleHoursChange parseFloat text prev) = Finite 0)"
    by (cases "parseFloat text")
       (auto simp: handleCycleHoursChange_def falsy_jsnumber_def Let_def)
  show ?thesis using hours fields by simp
qed

text \<open>
  A text that is no number gives 0; 35.5 is stored as it is; 99 is cut to 70 and -5 is
  raised to 0; the infinities give 70 and 0. Each value follows from the theorem alone.
\<close>

theorem handleCycleHoursChange_range_witness:
  "cycleUsedHours (handleCycleHoursChange (\<lambda>t. NaN) ''abc'' defaultFormData) = Finite 0 \<and>
   cycleUsedHours (handleCycleHoursChange (\<lambda>t. Finite (71 / 2)) ''35.5'' defaultFormData)
     = Finite (71 / 2) \<and>
   cycleUsedHours (handleCycleHoursChange (\<lambda>t. Finite 99) ''99'' defaultFormData) = Finite 70 \<and>
   cycleUsedHours (handleCycleHoursChange (\<lambda>t. Finite (- 5)) ''-5'' defaultFormData) = Finite 0 \<and>
   cycleUsedHours (handleCycleHoursChange (\<lambda>t. PosInfinity) ''Infinity'' defaultFormData)
     = Finite 70 \<and>
   cycleUsedHours (handleCycleHoursChange (\<lambda>t. NegInfinity) ''-Infinity'' defaultFormData)
     = Finite 0 \<and>
   currentLocation (handleCycleHoursChange (\<lambda>t. Finite 99) ''99'' defaultFormData)
     = currentLocation defaultFormData"
  using handleCycleHoursChange_range [of "\<lambda>t. NaN" "''abc''" defaultFormData]
    handleCycleHoursChange_range [of "\<lambda>t. Finite (71 / 2)" "''35.5''" defaultFormData]
    handleCycleHoursChange_range [of "\<lambda>t. Finite 99" "''99''" defaultFormData]
    handleCycleHoursChange_range [of "\<lambda>t. Finite (- 5)" "''-5''" defaultFormData]
    handleCycleHoursChange_range [of "\<lambda>t. PosInfinity" "''Infinity''" defaultFormData]
    handleCycleHoursChange_range [of "\<lambda>t. NegInfinity" "''-Infinity''" defaultFormData]
  by simp

section \<open>The error interceptor\<close>

text \<open>
  C10, as the claim states it, fails where the \<open>error\<close> field is present and empty: the
  claim gives a rejection with the message of that field, the interceptor hands the
  original error on.
\<close>

theorem responseErrorInterceptor_empty_error:
  "truthyField error emptyErrorResponse = None \<and>
   responseErrorInterceptor emptyErrorResponse \<noteq> ApiError [] True 400 \<and>
   responseErrorInterceptor emptyErrorResponse = Original emptyErrorResponse"
  by (simp add: responseErrorInterceptor_def truthyField_def truthy_string_def
      emptyErrorResponse_def)

text \<open>
  C10, amended. The interceptor rejects with an error whose message is
  \<open>response.data.error\<close> when that field is truthy (present and not empty), otherwise with
  one whose message is \<open>response.data.detail\<close> when that field is truthy, in both cases
  marked \<open>isApiError = true\<close> and carrying the status of the response; otherwise it
  rejects with the original error, unchanged.
\<close>

theorem responseErrorInterceptor_rejects:
  "(response e = Some r \<and> data r = Some d \<and> error d = Some m \<and> m \<noteq> [] \<longrightarrow>
      responseErrorInterceptor e = ApiError m True (status r)) \<and>
   (response e = Some r \<and> data r = Some d \<and> \<not> truthy_string (error d) \<and>
    detail d = Some m \<and> m \<noteq> [] \<longrightarrow>
      responseErrorInterceptor e = ApiError m True (status r)) \<and>
   (response e = Some r \<and> data r = Some d \<and> \<not> truthy_string (error d) \<and>
    \<not> truthy_string (detail d) \<longrightarrow>
      responseErrorInterceptor e = Original e) \<and>
   (response e = None \<or> (\<exists>r'. response e = Some r' \<and> data r' = None) \<longrightarrow>
      responseErrorInterceptor e = Original e)"
  by (auto simp: responseErrorInterceptor_def truthyField_def truthy_string_def
      split: option.splits)

theorem responseErrorInterceptor_rejects_witness:
  "responseErrorInterceptor errorResponse = ApiError ''Invalid location'' True 400 \<and>
   responseErrorInterceptor detailResponse = ApiError ''Not found.'' True 404 \<and>
   responseErrorInterceptor networkError = Original networkError"
  using
    responseErrorInterceptor_rejects [of errorResponse
      "\<lparr>status = 400, data = Some \<lparr>error = Some ''Invalid location'', detail = Some ''ignored''\<rparr>\<rparr>"
      "\<lparr>error = Some ''Invalid location'', detail = Some ''ignored''\<rparr>" "''Invalid location''"]
    responseErrorInterceptor_rejects [of detailResponse
      "\<lparr>status = 404, data = Some \<lparr>error = None, detail = Some ''Not found.''\<rparr>\<rparr>"
      "\<lparr>error = None, detail = Some ''Not found.''\<rparr>" "''Not found.''"]
    responseErrorInterceptor_rejects [of networkError]
  by (simp add: errorResponse_def detailResponse_def networkError_def truthy_string_def)

end
